theory Spec2Isabelle
  imports Main "HOL-Library.Sublist" "HOL-Library.Char_ord" "HOL-Library.List_Lexorder"
begin

section \<open>The object archive cache: \<open>bin/ar-merge.ps1\<close>\<close>

text \<open>
  The script is run once per archiver invocation of the build. Its persistent state is
  the cache directory \<open>$cache_dir\<close> with one text file per archive target, and the
  merged archives it deletes before asking the archiver to create them again. Strings
  are lists of 8-bit characters; a text file is the string of its characters.
\<close>

subsection \<open>PowerShell primitives used by the script\<close>

abbreviation LF :: char where "LF \<equiv> CHR 0x0A"
abbreviation CR :: char where "CR \<equiv> CHR 0x0D"

text \<open>
  The range operator \<open>a..b\<close> counts upwards when \<open>a \<le> b\<close> and downwards otherwise, so
  \<open>1..0\<close> is the two indices 1, 0. Indexing an array with a list of indices returns the
  elements at the indices that are in range (a negative index counts from the end) and
  silently skips the others.
\<close>

definition ps_range :: "int \<Rightarrow> int \<Rightarrow> int list" where
  "ps_range a b = (if a \<le> b then [a..b] else rev [b..a])"

definition ps_index :: "'a list \<Rightarrow> int \<Rightarrow> 'a option" where
  "ps_index xs i =
     (if 0 \<le> i \<and> i < int (length xs) then Some (xs ! nat i)
      else if i < 0 \<and> - int (length xs) \<le> i then Some (xs ! nat (int (length xs) + i))
      else None)"

definition ps_slice :: "'a list \<Rightarrow> int list \<Rightarrow> 'a list" where
  "ps_slice xs idxs = List.map_filter (ps_index xs) idxs"

text \<open>The idiom \<open>$xs[1..($xs.Length - 1)]\<close> of lines 15 and 58.\<close>

definition ps_rest :: "'a list \<Rightarrow> 'a list" where
  "ps_rest xs = ps_slice xs (ps_range 1 (int (length xs) - 1))"

text \<open>
  \<open>switch\<close> compares strings without regard to case. Only the ASCII letters are folded.
\<close>

definition to_lower :: "char \<Rightarrow> char" where
  "to_lower c =
     (case map_of (zip ''ABCDEFGHIJKLMNOPQRSTUVWXYZ'' ''abcdefghijklmnopqrstuvwxyz'') c of
        Some l \<Rightarrow> l
      | None \<Rightarrow> c)"

definition switch_eq :: "string \<Rightarrow> string \<Rightarrow> bool" where
  "switch_eq a b = (map to_lower a = map to_lower b)"

text \<open>\<open>$output -replace '[/\\]', '_'\<close> of line 59.\<close>

definition sanitize :: "string \<Rightarrow> string" where
  "sanitize output = map (\<lambda>c. if c = CHR ''/'' \<or> c = CHR 0x5C then CHR ''_'' else c) output"

text \<open>
  \<open>$arg -match '^@(.+)$'\<close> of line 69: the argument is an at sign followed by at least
  one character. The dot does not match a line feed, and the dollar also matches before
  a line feed that ends the string. The result is the captured group.
\<close>

definition rsp_match :: "string \<Rightarrow> string option" where
  "rsp_match arg =
     (case arg of
        [] \<Rightarrow> None
      | c # r \<Rightarrow>
          if c = CHR ''@'' then
            (let body = (if r \<noteq> [] \<and> last r = LF then butlast r else r)
             in if body \<noteq> [] \<and> LF \<notin> set body then Some body else None)
          else None)"

text \<open>
  \<open>Get-Content\<close> returns the lines of a text file. A line ends at a line feed, at a
  carriage return, or at a carriage return followed by a line feed; characters after the
  last terminator form a last line, and nothing follows a terminator that ends the file.
\<close>

fun read_lines :: "string \<Rightarrow> string \<Rightarrow> string list" where
  "read_lines line [] = (if line = [] then [] else [line])"
| "read_lines line (c # cs) =
     (if c = LF then line # read_lines [] cs
      else if c = CR then
        (case cs of
           [] \<Rightarrow> [line]
         | d # ds \<Rightarrow> if d = LF then line # read_lines [] ds else line # read_lines [] (d # ds))
      else read_lines (line @ [c]) cs)"

definition Get_Content :: "string \<Rightarrow> string list" where
  "Get_Content content = read_lines [] content"

text \<open>\<open>$line.Trim()\<close> removes leading and trailing white space (the ASCII part of it).\<close>

definition is_space :: "char \<Rightarrow> bool" where
  "is_space c \<longleftrightarrow>
     c = CHR '' '' \<or> c = CHR 0x09 \<or> c = LF \<or> c = CHR 0x0B \<or> c = CHR 0x0C \<or> c = CR"

definition Trim :: "string \<Rightarrow> string" where
  "Trim s = rev (dropWhile is_space (rev (dropWhile is_space s)))"

text \<open>\<open>$expanded_args -join "`n"\<close>.\<close>

fun join_nl :: "string list \<Rightarrow> string" where
  "join_nl [] = []"
| "join_nl [x] = x"
| "join_nl (x # y # ys) = x @ LF # join_nl (y # ys)"

text \<open>
  \<open>Out-File\<close> writes the string it receives followed by the line terminator of the host.
\<close>

datatype host = Windows | Unix

fun newline :: "host \<Rightarrow> string" where
  "newline Windows = [CR, LF]"
| "newline Unix = [LF]"

definition Out_File :: "host \<Rightarrow> string \<Rightarrow> string" where
  "Out_File h s = s @ newline h"

subsection \<open>The cache directory\<close>

text \<open>
  A directory is the list of its files, name and content, in the order in which
  \<open>Get-ChildItem\<close> enumerates them, each name once. The script does not sort what it
  enumerates; that the host lists a directory in the order of the file names is an
  assumption of this model, and \<open>write_file\<close> keeps that order.
\<close>

type_synonym directory = "(string \<times> string) list"

definition Test_Path :: "directory \<Rightarrow> string \<Rightarrow> bool" where
  "Test_Path dir name \<longleftrightarrow> name \<in> fst ` set dir"

definition Remove_Item :: "string \<Rightarrow> directory \<Rightarrow> directory" where
  "Remove_Item name dir = filter (\<lambda>entry. fst entry \<noteq> name) dir"

fun write_file :: "string \<Rightarrow> string \<Rightarrow> directory \<Rightarrow> directory" where
  "write_file name content [] = [(name, content)]"
| "write_file name content ((n, c) # dir) =
     (if name = n then (name, content) # dir
      else if name < n then (name, content) # (n, c) # dir
      else (n, c) # write_file name content dir)"

subsection \<open>State and configuration\<close>

text \<open>
  \<open>cache_dir\<close> is \<open>None\<close> while the directory does not exist. \<open>archive_files\<close> are the
  archives outside the cache directory, each with its list of members. The values that
  CMake substitutes into the script are the configuration; the path of the archiver
  itself is not needed, an archiver invocation is the list of arguments after it.
\<close>

record state =
  cache_dir :: "directory option"
  archive_files :: "string \<rightharpoonup> string list"

record config =
  cmake_binary_dir :: string
  host_os :: host

text \<open>Lines 18 to 20: the cache directory is created when it is missing.\<close>

definition ensure_cache_dir :: "state \<Rightarrow> directory" where
  "ensure_cache_dir st = (case cache_dir st of None \<Rightarrow> [] | Some dir \<Rightarrow> dir)"

text \<open>Lines 24 to 29. The directory exists at this point, is removed and created empty.\<close>

definition clean :: "directory \<Rightarrow> directory" where
  "clean dir = []"

text \<open>
  The pipeline of lines 33 and 45: the lines of every file of the cache directory, in
  the order of the directory, without the empty ones. Its result is taken as the list
  of these lines in both branches, whatever their number; line 45 wraps the pipeline in
  \<open>@(...)\<close>, line 33 does not, and what the host does with a result of exactly one
  line that is not wrapped is not distinguished here.
\<close>

definition cached_objects :: "directory \<Rightarrow> string list" where
  "cached_objects dir =
     filter (\<lambda>line. line \<noteq> []) (concat (map (\<lambda>entry. Get_Content (snd entry)) dir))"

definition phase_1_output :: "config \<Rightarrow> string" where
  "phase_1_output cfg = cmake_binary_dir cfg @ ''/libjank-standalone-phase-1.a''"

definition phase_2_output :: "config \<Rightarrow> string" where
  "phase_2_output cfg = cmake_binary_dir cfg @ ''/libjank-standalone.a''"

definition core_object :: "config \<Rightarrow> string" where
  "core_object cfg = cmake_binary_dir cfg @ ''/core-libs/clojure/core.o''"

definition delete_if_present :: "string \<Rightarrow> (string \<rightharpoonup> string list) \<Rightarrow> (string \<rightharpoonup> string list)" where
  "delete_if_present path files = (if files path \<noteq> None then files(path := None) else files)"

text \<open>Lines 32 to 40; the result is the new state and the arguments given to the archiver.\<close>

definition merge :: "config \<Rightarrow> directory \<Rightarrow> (string \<rightharpoonup> string list) \<Rightarrow> state \<times> string list" where
  "merge cfg dir archives =
     (let object_files = cached_objects dir;
          merge_output = phase_1_output cfg
      in (\<lparr>cache_dir = Some dir, archive_files = delete_if_present merge_output archives\<rparr>,
          ''qc'' # merge_output # object_files))"

text \<open>Lines 44 to 52.\<close>

definition merge_phase_2 :: "config \<Rightarrow> directory \<Rightarrow> (string \<rightharpoonup> string list) \<Rightarrow> state \<times> string list" where
  "merge_phase_2 cfg dir archives =
     (let object_files = cached_objects dir @ [core_object cfg];
          merge_output = phase_2_output cfg
      in (\<lparr>cache_dir = Some dir, archive_files = delete_if_present merge_output archives\<rparr>,
          ''qc'' # merge_output # object_files))"

text \<open>
  Lines 67 to 89. \<open>files\<close> are the text files that exist outside the cache directory when
  the script runs, the response files among them. The inner loop adds the trimmed
  non-empty lines of a response file.
\<close>

fun add_lines :: "string list \<Rightarrow> string list \<Rightarrow> string list" where
  "add_lines expanded_args [] = expanded_args"
| "add_lines expanded_args (line # rspContents) =
     (let trimmed = Trim line
      in if trimmed \<noteq> [] then add_lines (expanded_args @ [trimmed]) rspContents
         else add_lines expanded_args rspContents)"

fun expand_args :: "(string \<rightharpoonup> string) \<Rightarrow> string list \<Rightarrow> string list \<Rightarrow> string list" where
  "expand_args files expanded_args [] = expanded_args"
| "expand_args files expanded_args (arg # object_args) =
     (case rsp_match arg of
        Some rspFile \<Rightarrow>
          (case files rspFile of
             Some content \<Rightarrow>
               expand_args files (add_lines expanded_args (Get_Content content)) object_args
           | None \<Rightarrow> expand_args files (expanded_args @ [arg]) object_args)
      | None \<Rightarrow> expand_args files (expanded_args @ [arg]) object_args)"

text \<open>
  Lines 57 to 60. \<open>$remaining_args\<close> is never empty, since the script is given its
  command; were it empty, \<open>$output\<close> would be null, the empty string in what follows.
\<close>

definition output_of :: "string list \<Rightarrow> string" where
  "output_of remaining_args = (case ps_index remaining_args 0 of Some out \<Rightarrow> out | None \<Rightarrow> [])"

definition object_args_of :: "string list \<Rightarrow> string list" where
  "object_args_of remaining_args = ps_rest remaining_args"

definition list_file :: "string \<Rightarrow> string" where
  "list_file output = sanitize output @ ''.list''"

text \<open>Lines 56 to 99: the default branch of the \<open>switch\<close>.\<close>

definition default_mode ::
  "config \<Rightarrow> (string \<rightharpoonup> string) \<Rightarrow> string \<Rightarrow> string list \<Rightarrow> directory
     \<Rightarrow> (string \<rightharpoonup> string list) \<Rightarrow> state \<times> string list" where
  "default_mode cfg files command remaining_args dir archives =
     (let output = output_of remaining_args;
          object_args = object_args_of remaining_args;
          name = list_file output;
          expanded_args = expand_args files [] object_args;
          dir1 = (if Test_Path dir name then Remove_Item name dir else dir);
          dir2 = write_file name (Out_File (host_os cfg) (join_nl expanded_args)) dir1
      in (\<lparr>cache_dir = Some dir2, archive_files = archives\<rparr>,
          command # output # object_args))"

text \<open>
  The whole script, run with the arguments \<open>command # rest\<close>. The result is the state it
  leaves and the arguments of the archiver invocation it ends with, if there is one.
\<close>

definition ar_merge ::
  "config \<Rightarrow> (string \<rightharpoonup> string) \<Rightarrow> string \<Rightarrow> string list \<Rightarrow> state
     \<Rightarrow> state \<times> string list option" where
  "ar_merge cfg files command rest st =
     (let remaining_args = ps_rest (command # rest);
          dir = ensure_cache_dir st
      in if switch_eq command ''clean'' then
           (\<lparr>cache_dir = Some (clean dir), archive_files = archive_files st\<rparr>, None)
         else if switch_eq command ''merge'' then
           (case merge cfg dir (archive_files st) of (st', argv) \<Rightarrow> (st', Some argv))
         else if switch_eq command ''merge-phase-2'' then
           (case merge_phase_2 cfg dir (archive_files st) of (st', argv) \<Rightarrow> (st', Some argv))
         else
           (case default_mode cfg files command remaining_args dir (archive_files st) of
              (st', argv) \<Rightarrow> (st', Some argv)))"

text \<open>
  The archiver is a program of the host: it maps its arguments and the archives that
  exist to the archives that exist afterwards. One step of a build is one run of the
  script followed by the archiver invocation it asks for; each run sees the text files
  that exist at that moment.
\<close>

type_synonym archiver = "string list \<Rightarrow> (string \<rightharpoonup> string list) \<Rightarrow> (string \<rightharpoonup> string list)"

type_synonym invocation = "(string \<rightharpoonup> string) \<times> string \<times> string list"

definition invoke :: "archiver \<Rightarrow> config \<Rightarrow> state \<Rightarrow> invocation \<Rightarrow> state" where
  "invoke ar cfg st call =
     (case call of (files, command, rest) \<Rightarrow>
        (case ar_merge cfg files command rest st of
           (st', None) \<Rightarrow> st'
         | (st', Some argv) \<Rightarrow> st'\<lparr>archive_files := ar argv (archive_files st')\<rparr>))"

definition build :: "archiver \<Rightarrow> config \<Rightarrow> state \<Rightarrow> invocation list \<Rightarrow> state" where
  "build ar cfg st calls = foldl (invoke ar cfg) st calls"

text \<open>
  \<open>ar qc\<close> appends the members to the archive and creates the archive when it does not
  exist. This is all that is assumed of the archiver, and only where it is stated.
\<close>

definition quick_append :: "archiver \<Rightarrow> bool" where
  "quick_append ar \<longleftrightarrow>
     (\<forall>out members archives.
        ar (''qc'' # out # members) archives =
          archives(out \<mapsto> (case archives out of None \<Rightarrow> [] | Some old \<Rightarrow> old) @ members))"

text \<open>An archiver for examples: it knows \<open>qc\<close> and ignores every other command.\<close>

fun simple_ar :: archiver where
  "simple_ar (command # out # members) archives =
     (if command = ''qc''
      then archives(out \<mapsto> (case archives out of None \<Rightarrow> [] | Some old \<Rightarrow> old) @ members)
      else archives)"
| "simple_ar argv archives = archives"

section \<open>Toolchain resolution, flag filtering and link arguments\<close>

text \<open>
  The C++ of \<open>util/clang.cpp\<close>, \<open>jit/processor.cpp\<close> and \<open>aot/processor.cpp\<close> is taken
  from the excerpts of the fix notes. \<open>std::string\<close> is \<open>string\<close>, \<open>starts_with\<close> is
  \<open>prefix\<close>, \<open>find(s) != npos\<close> is \<open>sublist\<close>, and a \<open>char const *\<close> that may be null
  (\<open>getenv\<close>) is a \<open>string option\<close>.
\<close>

subsection \<open>Probing the file system\<close>

text \<open>
  \<open>std::filesystem::exists(path, ec)\<close> finds the path, finds nothing, or fails and sets
  \<open>ec\<close>. The test written everywhere is \<open>exists(path, ec) && !ec\<close>.
\<close>

datatype probe = Found | Missing | Failed

definition exists_no_error :: "(string \<Rightarrow> probe) \<Rightarrow> string \<Rightarrow> bool" where
  "exists_no_error fs path \<longleftrightarrow> fs path = Found"

text \<open>\<open>util::process_path().find(".app/") != std::string::npos\<close>.\<close>

definition is_app_bundle :: "string \<Rightarrow> bool" where
  "is_app_bundle process_path \<longleftrightarrow> sublist ''.app/'' process_path"

text \<open>
  The lambda \<open>is_accessible_path\<close>. The excerpt gives its branch for the paths that start
  with \<open>/Users/\<close>; every other path is let through to the probe.
\<close>

definition is_accessible_path :: "bool \<Rightarrow> string option \<Rightarrow> string \<Rightarrow> bool" where
  "is_accessible_path app_bundle home path =
     (if prefix ''/Users/'' path then
        (if app_bundle then False
         else (case home of None \<Rightarrow> False | Some h \<Rightarrow> prefix h path))
      else True)"

text \<open>
  A path is classified first and probed only when the classification lets it through.
  The result is the verdict together with the paths that were probed.
\<close>

definition check_path ::
  "(string \<Rightarrow> probe) \<Rightarrow> bool \<Rightarrow> string option \<Rightarrow> string \<Rightarrow> bool \<times> string list" where
  "check_path fs app_bundle home path =
     (if is_accessible_path app_bundle home path then (exists_no_error fs path, [path])
      else (False, []))"

subsection \<open>\<open>find_clang\<close>\<close>

text \<open>\<open>resource_dir / "bin/clang++"\<close> of \<open>std::filesystem::path\<close>.\<close>

definition path_append :: "string \<Rightarrow> string \<Rightarrow> string" where
  "path_append dir rel =
     (if dir = [] then rel
      else if last dir = CHR ''/'' then dir @ rel
      else dir @ CHR ''/'' # rel)"

text \<open>
  Modelled from the spec: the code of \<open>find_clang\<close> that checks the path configured at
  build time (\<open>JANK_CLANG_PATH\<close>) and the \<open>CXX\<close> environment variable is not in the
  sources. Following section 4.2 of the specification and the sentences of the notes
  (lines 101, 164 and 195), the candidates are tried in this order after the bundled
  compiler, each is classified by \<open>is_accessible_path\<close> and probed only when the
  classification lets it through, and the first one found is selected. The check of
  the bundled compiler, a plain probe in front of everything else, is the code of
  lines 113 to 121 of the notes. The result is the compiler selected, if any, and the
  paths probed on the way.
\<close>

definition find_clang ::
  "(string \<Rightarrow> probe) \<Rightarrow> string \<Rightarrow> string option \<Rightarrow> string \<Rightarrow> string \<Rightarrow> string option
     \<Rightarrow> string option \<times> string list" where
  "find_clang fs process_path home resource_dir configured_path cxx =
     (let app_bundle = is_app_bundle process_path;
          installed_path = path_append resource_dir ''bin/clang++''
      in if exists_no_error fs installed_path then (Some installed_path, [installed_path])
         else
           (case check_path fs app_bundle home configured_path of
              (True, probed) \<Rightarrow> (Some configured_path, installed_path # probed)
            | (False, probed) \<Rightarrow>
                (case cxx of
                   None \<Rightarrow> (None, installed_path # probed)
                 | Some cxx_path \<Rightarrow>
                     (case check_path fs app_bundle home cxx_path of
                        (True, probed') \<Rightarrow> (Some cxx_path, installed_path # probed @ probed')
                      | (False, probed') \<Rightarrow> (None, installed_path # probed @ probed')))))"

subsection \<open>Filtering \<open>JANK_JIT_FLAGS\<close>\<close>

text \<open>
  \<open>std::getline(flags, flag, ' ')\<close> called until it fails: the pieces of the stream
  between single spaces; no piece follows a space that ends the stream.
\<close>

fun getline_all :: "string \<Rightarrow> string \<Rightarrow> string list" where
  "getline_all flag [] = (if flag = [] then [] else [flag])"
| "getline_all flag (c # cs) =
     (if c = CHR '' '' then flag # getline_all [] cs else getline_all (flag @ [c]) cs)"

text \<open>
  The body of the loop: an \<open>-I\<close> flag whose path is not let through, or is not found, is
  skipped; every other flag is appended to \<open>args\<close>. The second component collects the
  probed paths.
\<close>

fun filter_flags_loop ::
  "(string \<Rightarrow> probe) \<Rightarrow> bool \<Rightarrow> string option \<Rightarrow> string list
     \<Rightarrow> string list \<times> string list \<Rightarrow> string list \<times> string list" where
  "filter_flags_loop fs app_bundle home [] (args, probed) = (args, probed)"
| "filter_flags_loop fs app_bundle home (flag # flags) (args, probed) =
     (if prefix ''-I'' flag then
        (case check_path fs app_bundle home (drop 2 flag) of
           (True, ps) \<Rightarrow> filter_flags_loop fs app_bundle home flags (args @ [flag], probed @ ps)
         | (False, ps) \<Rightarrow> filter_flags_loop fs app_bundle home flags (args, probed @ ps))
      else filter_flags_loop fs app_bundle home flags (args @ [flag], probed))"

definition filter_jit_flags ::
  "(string \<Rightarrow> probe) \<Rightarrow> string \<Rightarrow> string option \<Rightarrow> string \<Rightarrow> string list
     \<Rightarrow> string list \<times> string list" where
  "filter_jit_flags fs process_path home JANK_JIT_FLAGS args =
     filter_flags_loop fs (is_app_bundle process_path) home
       (getline_all [] JANK_JIT_FLAGS) (args, [])"

subsection \<open>Loading the precompiled header\<close>

definition load_pch_flags :: "string list \<Rightarrow> string \<Rightarrow> string list" where
  "load_pch_flags args pch_path_str =
     (let args1 = args @ [''-include-pch''];
          args2 = args1 @ [pch_path_str];
          args3 = args2 @ [''-Xclang''];
          args4 = args3 @ [''-fno-validate-pch'']
      in args4)"

subsection \<open>Link arguments of the AOT processor\<close>

text \<open>The loop over \<open>util::cli::opts.libs\<close>.\<close>

fun push_user_libs :: "string list \<Rightarrow> string list \<Rightarrow> string list" where
  "push_user_libs compiler_args [] = compiler_args"
| "push_user_libs compiler_args (lib # libs) =
     push_user_libs (compiler_args @ [''-l'' @ lib]) libs"

text \<open>The loop over the four frameworks, run when the platform is \<open>macos_like\<close>.\<close>

fun push_frameworks :: "string list \<Rightarrow> string list \<Rightarrow> string list" where
  "push_frameworks compiler_args [] = compiler_args"
| "push_frameworks compiler_args (framework # frameworks) =
     push_frameworks (compiler_args @ [''-framework''] @ [framework]) frameworks"

text \<open>
  \<open>compiler_args\<close> holds what was pushed before, the library directories among it;
  \<open>macos_like\<close> is the value of \<open>jtl::current_platform == jtl::platform::macos_like\<close>.
\<close>

definition compose_link_args :: "bool \<Rightarrow> string list \<Rightarrow> string list \<Rightarrow> string list" where
  "compose_link_args macos_like libs compiler_args =
     (let with_libs = push_user_libs compiler_args libs
      in if macos_like
         then push_frameworks with_libs [''OpenGL'', ''Cocoa'', ''IOKit'', ''CoreFoundation'']
         else with_libs)"

section \<open>Notions used to state the properties\<close>

subsection \<open>Records of the cache\<close>

text \<open>
  A line of text has no line terminator in it; a list of object paths can be stored
  in a record and read back when its members are non-empty lines.
\<close>

definition line_text :: "string \<Rightarrow> bool" where
  "line_text s \<longleftrightarrow> LF \<notin> set s \<and> CR \<notin> set s"

definition storable :: "string list \<Rightarrow> bool" where
  "storable ls \<longleftrightarrow> (\<forall>l\<in>set ls. l \<noteq> [] \<and> line_text l)"

text \<open>
  A record invocation is one that the \<open>switch\<close> sends to its default branch. Its record
  has the name \<open>recorded_name\<close> in the cache directory and holds \<open>recorded_objects\<close>.
\<close>

definition is_record :: "invocation \<Rightarrow> bool" where
  "is_record call =
     (case call of (files, command, rest) \<Rightarrow>
        \<not> switch_eq command ''clean'' \<and> \<not> switch_eq command ''merge''
        \<and> \<not> switch_eq command ''merge-phase-2'')"

definition recorded_name :: "invocation \<Rightarrow> string" where
  "recorded_name call =
     (case call of (files, command, rest) \<Rightarrow> list_file (output_of (ps_rest (command # rest))))"

definition recorded_objects :: "invocation \<Rightarrow> string list" where
  "recorded_objects call =
     (case call of (files, command, rest) \<Rightarrow>
        expand_args files [] (object_args_of (ps_rest (command # rest))))"

definition record_content :: "config \<Rightarrow> invocation \<Rightarrow> string" where
  "record_content cfg call = Out_File (host_os cfg) (join_nl (recorded_objects call))"

text \<open>
  What a merge is expected to pass on, given the records written so far as pairs of
  name and object list: for every name once, in sorted order, the object list written
  last under that name.
\<close>

definition latest :: "(string \<times> string list) list \<Rightarrow> string \<Rightarrow> string list" where
  "latest records name = (case map_of (rev records) name of Some objs \<Rightarrow> objs | None \<Rightarrow> [])"

definition merged_members :: "(string \<times> string list) list \<Rightarrow> string list" where
  "merged_members records = concat (map (latest records) (sort (remdups (map fst records))))"

text \<open>Replacing a file, and doing so for a list of files.\<close>

definition put_file :: "string \<Rightarrow> string \<Rightarrow> directory \<Rightarrow> directory" where
  "put_file name content dir = write_file name content (Remove_Item name dir)"

definition put_all :: "directory \<Rightarrow> (string \<times> string) list \<Rightarrow> directory" where
  "put_all dir entries = foldl (\<lambda>d e. put_file (fst e) (snd e) d) dir entries"

text \<open>
  What the expansion of one object argument is expected to be: the trimmed non-empty
  lines of the response file it refers to when that file exists, the argument otherwise.
\<close>

definition response_paths :: "string \<Rightarrow> string list" where
  "response_paths content = filter (\<lambda>path. path \<noteq> []) (map Trim (Get_Content content))"

definition expansion :: "(string \<rightharpoonup> string) \<Rightarrow> string \<Rightarrow> string list" where
  "expansion files arg =
     (case rsp_match arg of
        None \<Rightarrow> [arg]
      | Some rspFile \<Rightarrow>
          (case files rspFile of None \<Rightarrow> [arg] | Some content \<Rightarrow> response_paths content))"

subsection \<open>Paths below a home directory\<close>

text \<open>
  A path is rejected by its place when it starts with \<open>/Users/\<close> and the process runs
  from an application bundle, or \<open>HOME\<close> is unset, or the path does not start with the
  value of \<open>HOME\<close>. A path is below the home directory when it is the value of \<open>HOME\<close>
  or continues it after a slash.
\<close>

definition rejected :: "bool \<Rightarrow> string option \<Rightarrow> string \<Rightarrow> bool" where
  "rejected app_bundle home path \<longleftrightarrow>
     prefix ''/Users/'' path \<and>
     (app_bundle \<or> (case home of None \<Rightarrow> True | Some h \<Rightarrow> \<not> prefix h path))"

definition below_home :: "string option \<Rightarrow> string \<Rightarrow> bool" where
  "below_home home path \<longleftrightarrow>
     (case home of None \<Rightarrow> False | Some h \<Rightarrow> path = h \<or> prefix (h @ ''/'') path)"

subsection \<open>Concrete inputs\<close>

definition example_config :: config where
  "example_config = \<lparr>cmake_binary_dir = ''/build'', host_os = Windows\<rparr>"

definition no_files :: "string \<rightharpoonup> string" where
  "no_files = Map.empty"

definition fresh_state :: state where
  "fresh_state = \<lparr>cache_dir = None, archive_files = Map.empty\<rparr>"

definition stale_state :: state where
  "stale_state =
     \<lparr>cache_dir = Some [(''A.list'', ''a1.o'' @ [LF] @ ''a2.o'' @ [CR, LF])],
      archive_files = [''/build/libjank-standalone-phase-1.a'' \<mapsto> [''old.o'']]\<rparr>"

definition collide_first :: invocation where
  "collide_first = (no_files, ''qc'', [''lib/a/b.a'', ''x1.o'', ''x2.o''])"

definition collide_second :: invocation where
  "collide_second = (no_files, ''qc'', [''lib/a_b.a'', ''y1.o'', ''y2.o''])"

definition example_rsp_text :: string where
  "example_rsp_text = '' a.o '' @ [CR, LF] @ ''b.o'' @ [CR, LF]"

definition example_rsp :: "string \<rightharpoonup> string" where
  "example_rsp = [''objs.rsp'' \<mapsto> example_rsp_text]"

text \<open>
  A build in which the archive \<open>libx.a\<close> is created from no object at all.
\<close>

definition objectless_build :: "invocation list" where
  "objectless_build =
     [(no_files, ''clean'', []),
      (no_files, ''qc'', [''libA.a'', ''a1.o'', ''a2.o'']),
      (no_files, ''qc'', [''libx.a'']),
      (no_files, ''merge'', [])]"

text \<open>
  Two flags with a tabulator between them, and the flags of a string when it is split
  at white space of any kind, which is how the specification words the split.
\<close>

definition tab_joined :: string where
  "tab_joined = ''-DX'' @ [CHR 0x09] @ ''-I/nowhere''"

fun split_whitespace :: "string \<Rightarrow> string \<Rightarrow> string list" where
  "split_whitespace flag [] = (if flag = [] then [] else [flag])"
| "split_whitespace flag (c # cs) =
     (if is_space c then (if flag = [] then [] else [flag]) @ split_whitespace [] cs
      else split_whitespace (flag @ [c]) cs)"

definition no_bundled :: "string \<Rightarrow> probe" where
  "no_bundled path = (if path = ''/opt/jank/bin/clang++'' then Missing else Found)"

definition all_found :: "string \<Rightarrow> probe" where
  "all_found path = Found"

definition only_opt :: "string \<Rightarrow> probe" where
  "only_opt path = (if path = ''/opt/inc'' then Found else Missing)"

section \<open>Properties of the object archive cache\<close>

subsection \<open>Slicing, and reading back what was written\<close>

lemma ps_rest_single: "ps_rest [x] = [x]"
  by (simp add: ps_rest_def ps_slice_def ps_range_def ps_index_def List.map_filter_def upto.simps)

lemma ps_slice_all_in_range:
  assumes "\<forall>i\<in>set idxs. 0 \<le> i \<and> i < int (length xs)"
  shows "ps_slice xs idxs = map (\<lambda>i. xs ! nat i) idxs"
  using assms
  by (induction idxs) (auto simp: ps_slice_def List.map_filter_def ps_index_def Let_def)

lemma ps_rest_two_or_more: "ps_rest (x # y # ys) = y # ys"
proof -
  let ?xs = "x # y # ys"
  let ?n = "int (length ?xs)"
  have r: "ps_range 1 (?n - 1) = [1..?n - 1]"
    by (simp add: ps_range_def)
  have "ps_slice ?xs [1..?n - 1] = map (\<lambda>i. ?xs ! nat i) [1..?n - 1]"
    by (rule ps_slice_all_in_range) auto
  also have "\<dots> = y # ys"
  proof (rule nth_equalityI)
    show "length (map (\<lambda>i. ?xs ! nat i) [1..?n - 1]) = length (y # ys)"
      by simp
  next
    fix i assume "i < length (map (\<lambda>i. ?xs ! nat i) [1..?n - 1])"
    then have i: "i < Suc (length ys)" by simp
    then have "[1..?n - 1] ! i = 1 + int i"
      by (intro nth_upto) simp
    moreover have "nat (1 + int i) = Suc i" by simp
    ultimately show "map (\<lambda>i. ?xs ! nat i) [1..?n - 1] ! i = (y # ys) ! i"
      using i by simp
  qed
  finally show ?thesis
    by (simp only: ps_rest_def r)
qed

lemma ps_rest_Cons: "ps_rest (x # xs) = (if xs = [] then [x] else xs)"
  by (cases xs) (simp_all add: ps_rest_single ps_rest_two_or_more)

lemma output_of_Cons: "output_of (x # xs) = x"
  by (simp add: output_of_def ps_index_def)

lemma read_lines_LF:
  "line_text l \<Longrightarrow> read_lines acc (l @ LF # rest) = (acc @ l) # read_lines [] rest"
  by (induction l arbitrary: acc) (auto simp: line_text_def)

lemma read_lines_CRLF_end:
  "line_text l \<Longrightarrow> read_lines acc (l @ [CR, LF]) = [acc @ l]"
  by (induction l arbitrary: acc) (auto simp: line_text_def)

lemma read_lines_newline:
  "line_text l \<Longrightarrow> read_lines [] (l @ newline h) = [l]"
  by (cases h) (simp_all add: read_lines_LF read_lines_CRLF_end)

lemma Get_Content_Out_File_join:
  assumes "\<forall>l\<in>set ls. line_text l" "ls \<noteq> []"
  shows "Get_Content (Out_File h (join_nl ls)) = ls"
  using assms
proof (induction ls rule: join_nl.induct)
  case 1
  then show ?case by simp
next
  case (2 x)
  then show ?case by (simp add: Get_Content_def Out_File_def read_lines_newline)
next
  case (3 x y ys)
  then show ?case by (simp add: Get_Content_def Out_File_def read_lines_LF)
qed

lemma Get_Content_Out_File_empty: "Get_Content (Out_File h []) = [[]]"
  by (cases h) (simp_all add: Get_Content_def Out_File_def)

lemma read_back:
  assumes "storable ls"
  shows "filter (\<lambda>line. line \<noteq> []) (Get_Content (Out_File h (join_nl ls))) = ls"
proof (cases "ls = []")
  case True
  then show ?thesis by (simp add: Get_Content_Out_File_empty)
next
  case False
  with assms have "Get_Content (Out_File h (join_nl ls)) = ls"
    by (intro Get_Content_Out_File_join) (auto simp: storable_def)
  moreover have "filter (\<lambda>line. line \<noteq> []) ls = ls"
    using assms by (auto simp: storable_def intro: filter_True)
  ultimately show ?thesis by simp
qed

lemma remove_if_present: "(if Test_Path dir name then Remove_Item name dir else dir) = Remove_Item name dir"
  by (auto simp: Test_Path_def Remove_Item_def intro!: filter_True[symmetric])

lemma map_of_Remove_Item: "map_of (Remove_Item name dir) = (map_of dir)(name := None)"
  by (induction dir) (auto simp: Remove_Item_def)

lemma map_of_write_file: "map_of (write_file name content dir) = (map_of dir)(name \<mapsto> content)"
  by (induction dir) (auto simp: fun_upd_twist)

lemma map_of_put_file: "map_of (put_file name content dir) = (map_of dir)(name \<mapsto> content)"
  by (simp add: put_file_def map_of_write_file map_of_Remove_Item)

lemma set_write_file: "fst ` set (write_file name content dir) = insert name (fst ` set dir)"
proof -
  have "fst ` set (write_file name content dir) = dom (map_of (write_file name content dir))"
    by (simp add: dom_map_of_conv_image_fst)
  also have "\<dots> = insert name (dom (map_of dir))"
    by (simp add: map_of_write_file)
  finally show ?thesis
    by (simp add: dom_map_of_conv_image_fst)
qed

lemma sorted_write_file:
  "sorted_wrt (<) (map fst dir) \<Longrightarrow> sorted_wrt (<) (map fst (write_file name content dir))"
proof (induction dir)
  case Nil
  then show ?case by simp
next
  case (Cons e dir)
  obtain n c where e: "e = (n, c)" by (cases e)
  show ?case
  proof (cases "name = n \<or> name < n")
    case True
    with Cons.prems e show ?thesis by (auto simp: less_trans)
  next
    case False
    then have "n < name" by auto
    moreover have "fst ` set (write_file name content dir) = insert name (fst ` set dir)"
      by (rule set_write_file)
    ultimately show ?thesis
      using Cons e False by auto
  qed
qed

lemma sorted_Remove_Item:
  "sorted_wrt (<) (map fst dir) \<Longrightarrow> sorted_wrt (<) (map fst (Remove_Item name dir))"
  by (induction dir) (auto simp: Remove_Item_def)

lemma sorted_put_file:
  "sorted_wrt (<) (map fst dir) \<Longrightarrow> sorted_wrt (<) (map fst (put_file name content dir))"
  by (simp add: put_file_def sorted_write_file sorted_Remove_Item)

lemma sorted_put_all:
  "sorted_wrt (<) (map fst dir) \<Longrightarrow> sorted_wrt (<) (map fst (put_all dir entries))"
  by (induction entries arbitrary: dir) (simp_all add: put_all_def sorted_put_file)

lemma map_of_put_all: "map_of (put_all dir entries) = map_of (rev entries @ dir)"
proof (induction entries arbitrary: dir)
  case Nil
  then show ?case by (simp add: put_all_def)
next
  case (Cons e entries)
  have "map_of (put_all (put_file (fst e) (snd e) dir) entries) =
        map_of (rev entries @ put_file (fst e) (snd e) dir)"
    using Cons.IH[of "put_file (fst e) (snd e) dir"] .
  also have "\<dots> = map_of (rev entries @ e # dir)"
    by (cases e) (simp add: map_of_put_file map_add_def[symmetric] fun_eq_iff)
  finally show ?case by (simp add: put_all_def)
qed

lemma names_put_all:
  "map fst (put_all [] entries) = sort (remdups (map fst entries))"
proof -
  let ?d = "put_all [] entries"
  have s: "sorted_wrt (<) (map fst ?d)"
    by (rule sorted_put_all) simp
  have "set (map fst ?d) = dom (map_of ?d)"
    by (simp add: dom_map_of_conv_image_fst)
  also have "\<dots> = set (map fst entries)"
    by (simp add: map_of_put_all dom_map_of_conv_image_fst)
  finally have "set (map fst ?d) = set (sort (remdups (map fst entries)))"
    by simp
  moreover have "sorted (map fst ?d)" "distinct (map fst ?d)"
    using s by (simp_all add: strict_sorted_iff)
  ultimately show ?thesis
    by (intro sorted_distinct_set_unique) simp_all
qed

lemma entries_of_distinct:
  assumes "distinct (map fst dir)"
  shows "map (\<lambda>n. (n, the (map_of dir n))) (map fst dir) = dir"
proof -
  have "(fst e, the (map_of dir (fst e))) = e" if "e \<in> set dir" for e
  proof -
    from that have "(fst e, snd e) \<in> set dir" by simp
    with assms have "map_of dir (fst e) = Some (snd e)"
      by (rule map_of_is_SomeI)
    then show ?thesis by simp
  qed
  then show ?thesis
    by (simp add: map_idI o_def)
qed

subsection \<open>The branches of the script\<close>

lemma not_clean_merge [simp]:
  "\<not> switch_eq ''merge'' ''clean''" "\<not> switch_eq ''merge-phase-2'' ''clean''"
  "\<not> switch_eq ''merge-phase-2'' ''merge''" "switch_eq ''merge'' ''merge''"
  "switch_eq ''clean'' ''clean''" "switch_eq ''merge-phase-2'' ''merge-phase-2''"
  by (simp_all add: switch_eq_def to_lower_def)

lemma ar_merge_clean:
  "ar_merge cfg files ''clean'' rest st = (\<lparr>cache_dir = Some [], archive_files = archive_files st\<rparr>, None)"
  by (simp add: ar_merge_def clean_def Let_def)

lemma ar_merge_merge:
  "ar_merge cfg files ''merge'' rest st =
     (\<lparr>cache_dir = Some (ensure_cache_dir st),
       archive_files = delete_if_present (phase_1_output cfg) (archive_files st)\<rparr>,
      Some (''qc'' # phase_1_output cfg # cached_objects (ensure_cache_dir st)))"
  by (simp add: ar_merge_def merge_def Let_def)


lemma ar_merge_record:
  assumes "is_record (files, command, rest)"
  shows "ar_merge cfg files command rest st =
     (\<lparr>cache_dir = Some (put_file (recorded_name (files, command, rest))
                           (record_content cfg (files, command, rest)) (ensure_cache_dir st)),
       archive_files = archive_files st\<rparr>,
      Some (command # output_of (ps_rest (command # rest))
              # object_args_of (ps_rest (command # rest))))"
  using assms
  by (simp add: ar_merge_def default_mode_def Let_def is_record_def recorded_name_def
      recorded_objects_def record_content_def put_file_def remove_if_present)

lemma cache_dir_invoke_record:
  assumes "is_record call"
  shows "cache_dir (invoke ar cfg st call) =
     Some (put_file (recorded_name call) (record_content cfg call) (ensure_cache_dir st))"
proof -
  obtain files command rest where c: "call = (files, command, rest)"
    by (cases call)
  show ?thesis
    using assms unfolding c by (simp add: invoke_def ar_merge_record)
qed

lemma cache_dir_build_records:
  assumes "\<forall>call\<in>set calls. is_record call" "cache_dir st = Some dir"
  shows "cache_dir (build ar cfg st calls) =
     Some (put_all dir (map (\<lambda>call. (recorded_name call, record_content cfg call)) calls))"
  using assms
proof (induction calls arbitrary: st dir)
  case Nil
  then show ?case by (simp add: build_def put_all_def)
next
  case (Cons call calls)
  let ?d = "put_file (recorded_name call) (record_content cfg call) dir"
  have "cache_dir (invoke ar cfg st call) = Some ?d"
    using Cons.prems by (simp add: cache_dir_invoke_record ensure_cache_dir_def)
  with Cons.prems Cons.IH[of "invoke ar cfg st call" ?d]
  show ?case by (simp add: build_def put_all_def)
qed

lemma cache_dir_invoke_clean:
  "cache_dir (invoke ar cfg st (files, ''clean'', rest)) = Some []"
  by (simp add: invoke_def ar_merge_clean)

lemma map_of_map_snd:
  "map_of (map (\<lambda>r. (fst r, f (snd r))) xs) n = map_option f (map_of xs n)"
  by (induction xs) auto

lemma cached_objects_put_all:
  assumes "\<And>n objs. map_of (rev records) n = Some objs \<Longrightarrow> storable objs"
  shows "cached_objects (put_all [] (map (\<lambda>r. (fst r, Out_File h (join_nl (snd r)))) records)) =
     merged_members records"
proof -
  let ?enc = "\<lambda>objs. Out_File h (join_nl objs)"
  let ?entries = "map (\<lambda>r. (fst r, ?enc (snd r))) records"
  let ?d = "put_all [] ?entries"
  have names: "map fst ?d = sort (remdups (map fst records))"
    by (simp add: names_put_all o_def)
  have "distinct (map fst ?d)"
    by (simp add: names)
  then have d: "?d = map (\<lambda>n. (n, the (map_of ?d n))) (map fst ?d)"
    by (rule entries_of_distinct[symmetric])
  have look: "map_of ?d n = map_option ?enc (map_of (rev records) n)" for n
  proof -
    have "map_of (rev ?entries) n = map_of (map (\<lambda>r. (fst r, ?enc (snd r))) (rev records)) n"
      by (simp add: rev_map)
    also have "\<dots> = map_option ?enc (map_of (rev records) n)"
      by (rule map_of_map_snd)
    finally show ?thesis by (simp add: map_of_put_all)
  qed
  have line: "filter (\<lambda>line. line \<noteq> []) (Get_Content (the (map_of ?d n))) = latest records n"
    if "n \<in> set (map fst records)" for n
  proof -
    from that have "n \<in> fst ` set (rev records)" by simp
    then obtain objs where objs: "map_of (rev records) n = Some objs"
      by (metis domD dom_map_of_conv_image_fst)
    then have "storable objs" by (rule assms)
    then show ?thesis
      by (simp add: look objs latest_def read_back)
  qed
  have "cached_objects ?d =
      concat (map (\<lambda>n. filter (\<lambda>line. line \<noteq> []) (Get_Content (the (map_of ?d n)))) (map fst ?d))"
    by (subst d) (simp add: cached_objects_def filter_concat o_def)
  also have "\<dots> = concat (map (latest records) (map fst ?d))"
  proof -
    have ks: "set (map fst ?d) = set (map fst records)"
      by (simp only: names set_sort set_remdups)
    have "map (\<lambda>n. filter (\<lambda>line. line \<noteq> []) (Get_Content (the (map_of ?d n)))) (map fst ?d)
        = map (latest records) (map fst ?d)"
    proof (rule map_cong[OF refl])
      fix n assume "n \<in> set (map fst ?d)"
      then have "n \<in> set (map fst records)" by (simp only: ks)
      then show "filter (\<lambda>line. line \<noteq> []) (Get_Content (the (map_of ?d n))) = latest records n"
        by (rule line)
    qed
    then show ?thesis by (simp only:)
  qed
  finally show ?thesis
    by (simp add: names merged_members_def)
qed

subsection \<open>Recording and merging\<close>

lemma merge_after_clean_and_records:
  assumes "\<forall>call\<in>set calls. is_record call"
    and "\<And>n objs. map_of (rev (map (\<lambda>call. (recorded_name call, recorded_objects call)) calls)) n = Some objs
           \<Longrightarrow> storable objs"
  shows "cached_objects (ensure_cache_dir (build ar cfg st ((files0, ''clean'', []) # calls))) =
     merged_members (map (\<lambda>call. (recorded_name call, recorded_objects call)) calls)"
proof -
  let ?st1 = "invoke ar cfg st (files0, ''clean'', [])"
  let ?records = "map (\<lambda>call. (recorded_name call, recorded_objects call)) calls"
  have "cache_dir (build ar cfg ?st1 calls) =
     Some (put_all [] (map (\<lambda>call. (recorded_name call, record_content cfg call)) calls))"
    using assms(1) by (intro cache_dir_build_records) (simp_all add: cache_dir_invoke_clean)
  moreover have "map (\<lambda>call. (recorded_name call, record_content cfg call)) calls =
      map (\<lambda>r. (fst r, Out_File (host_os cfg) (join_nl (snd r)))) ?records"
    by (simp add: record_content_def o_def)
  moreover have "cached_objects (put_all [] (map (\<lambda>r. (fst r, Out_File (host_os cfg) (join_nl (snd r)))) ?records))
      = merged_members ?records"
    using assms(2) by (rule cached_objects_put_all)
  ultimately show ?thesis
    by (simp add: build_def ensure_cache_dir_def)
qed

text \<open>
  After a clean, any sequence of record invocations followed by one merge makes the
  merge pass to the archiver the concatenation, over the record names in the order of
  the directory, of the object list that the script wrote last under each name. A
  target recorded again contributes its new list only. The lists written are those the
  script extracts from its arguments, with non-empty paths free of line terminators.
\<close>

lemma merge_passes_latest_records:
  assumes "\<forall>call\<in>set calls. is_record call \<and> storable (recorded_objects call)"
  shows "snd (ar_merge cfg files ''merge'' []
               (build ar cfg st ((files0, ''clean'', []) # calls))) =
     Some (''qc'' # phase_1_output cfg
           # merged_members (map (\<lambda>call. (recorded_name call, recorded_objects call)) calls))"
proof -
  let ?records = "map (\<lambda>call. (recorded_name call, recorded_objects call)) calls"
  have "cached_objects (ensure_cache_dir (build ar cfg st ((files0, ''clean'', []) # calls))) =
      merged_members ?records"
  proof (rule merge_after_clean_and_records)
    show "\<forall>call\<in>set calls. is_record call"
      using assms by simp
  next
    fix n objs assume "map_of (rev ?records) n = Some objs"
    then have "(n, objs) \<in> set (rev ?records)" by (rule map_of_SomeD)
    then obtain call where "call \<in> set calls" "objs = recorded_objects call" by auto
    with assms show "storable objs" by simp
  qed
  then show ?thesis
    by (simp add: ar_merge_merge)
qed

lemma objectless_cache:
  "cache_dir (build simple_ar example_config fresh_state (butlast objectless_build)) =
     Some [(''libA.a.list'', ''a1.o'' @ [LF] @ ''a2.o'' @ [CR, LF]),
           (''libx.a.list'', ''libx.a'' @ [CR, LF])]"
proof -
  have r: "\<forall>call\<in>set [(no_files, ''qc'', [''libA.a'', ''a1.o'', ''a2.o'']),
                       (no_files, ''qc'', [''libx.a''])]. is_record call"
    by (simp add: is_record_def switch_eq_def to_lower_def)
  have c: "cache_dir (invoke simple_ar example_config fresh_state (no_files, ''clean'', [])) = Some []"
    by (rule cache_dir_invoke_clean)
  show ?thesis
    using cache_dir_build_records[OF r c, of simple_ar example_config]
    by (simp add: objectless_build_def build_def put_all_def put_file_def Remove_Item_def
        recorded_name_def record_content_def recorded_objects_def ps_rest_Cons output_of_Cons
        object_args_of_def list_file_def sanitize_def rsp_match_def Out_File_def
        example_config_def)
qed



subsection \<open>Cleaning\<close>

lemma quick_append_simple_ar: "quick_append simple_ar"
  by (simp add: quick_append_def)

lemma delete_if_present_None: "delete_if_present path files path = None"
  by (simp add: delete_if_present_def)

lemma archive_files_invoke_merge:
  "archive_files (invoke ar cfg s (files, ''merge'', rest)) =
     ar (''qc'' # phase_1_output cfg # cached_objects (ensure_cache_dir s))
        (delete_if_present (phase_1_output cfg) (archive_files s))"
  by (simp add: invoke_def ar_merge_merge)

lemma quick_append_fresh:
  assumes "quick_append ar"
  shows "ar [''qc'', out] (delete_if_present out archives) out = Some []"
proof -
  from assms have "ar (''qc'' # out # []) (delete_if_present out archives) =
      (delete_if_present out archives)(out \<mapsto>
         (case delete_if_present out archives out of None \<Rightarrow> [] | Some old \<Rightarrow> old) @ [])"
    unfolding quick_append_def by blast
  then show ?thesis
    by (simp add: delete_if_present_None)
qed

text \<open>
  C3. A clean followed by a merge ends normally: the merge asks the archiver for the
  phase-1 archive with no member at all, at a path where no archive is left, so that
  an archiver whose \<open>qc\<close> appends to a new archive leaves an archive with zero members.
\<close>

theorem clean_then_merge_empty_archive:
  "snd (ar_merge cfg files ''merge'' [] (invoke ar cfg st (files0, ''clean'', []))) =
     Some [''qc'', phase_1_output cfg] \<and>
   (quick_append ar \<longrightarrow>
      archive_files (build ar cfg st [(files0, ''clean'', []), (files, ''merge'', [])])
        (phase_1_output cfg) = Some [])"
proof -
  let ?st1 = "invoke ar cfg st (files0, ''clean'', [])"
  have d: "ensure_cache_dir ?st1 = []"
    by (simp add: ensure_cache_dir_def cache_dir_invoke_clean)
  have argv: "snd (ar_merge cfg files ''merge'' [] ?st1) = Some [''qc'', phase_1_output cfg]"
    by (simp add: ar_merge_merge d cached_objects_def)
  have b: "build ar cfg st [(files0, ''clean'', []), (files, ''merge'', [])] =
      invoke ar cfg ?st1 (files, ''merge'', [])"
    by (simp add: build_def)
  have "archive_files (invoke ar cfg ?st1 (files, ''merge'', [])) (phase_1_output cfg) = Some []"
    if "quick_append ar"
  proof -
    have "archive_files (invoke ar cfg ?st1 (files, ''merge'', [])) =
        ar [''qc'', phase_1_output cfg]
           (delete_if_present (phase_1_output cfg) (archive_files ?st1))"
      by (simp add: archive_files_invoke_merge d cached_objects_def)
    then show ?thesis
      by (simp only: quick_append_fresh[OF that])
  qed
  with argv show ?thesis
    unfolding b by blast
qed

theorem clean_then_merge_witness:
  "quick_append simple_ar \<and>
   snd (ar_merge example_config no_files ''merge'' []
          (invoke simple_ar example_config stale_state (no_files, ''clean'', []))) =
     Some [''qc'', ''/build/libjank-standalone-phase-1.a''] \<and>
   archive_files (build simple_ar example_config stale_state
                    [(no_files, ''clean'', []), (no_files, ''merge'', [])])
     ''/build/libjank-standalone-phase-1.a'' = Some []"
  using clean_then_merge_empty_archive
          [of example_config no_files simple_ar stale_state no_files]
    quick_append_simple_ar
  by (simp add: phase_1_output_def example_config_def)

subsection \<open>An archive recorded without objects\<close>

text \<open>
  C1 at a build that creates the archive \<open>libx.a\<close> from no object, between the record of
  another archive and the merge: the object list recorded for \<open>libx.a\<close> is empty, but
  the record that the script writes holds the output path \<open>libx.a\<close>, and the merged
  archive has it as a member after the two objects of the other archive.
\<close>

theorem merge_includes_output_of_objectless_record:
  "archive_files (build simple_ar example_config fresh_state objectless_build)
     ''/build/libjank-standalone-phase-1.a'' = Some [''a1.o'', ''a2.o'', ''libx.a'']"
proof -
  let ?st = "build simple_ar example_config fresh_state (butlast objectless_build)"
  have b: "build simple_ar example_config fresh_state objectless_build =
      invoke simple_ar example_config ?st (no_files, ''merge'', [])"
    by (simp add: objectless_build_def build_def)
  have o: "cached_objects (ensure_cache_dir ?st) = [''a1.o'', ''a2.o'', ''libx.a'']"
    by (simp add: ensure_cache_dir_def objectless_cache cached_objects_def Get_Content_def)
  show ?thesis
    unfolding b archive_files_invoke_merge o
    by (simp add: delete_if_present_None phase_1_output_def example_config_def)
qed

subsection \<open>Colliding keys\<close>

text \<open>
  C10. The sanitization is not injective: the two different output paths \<open>lib/a/b.a\<close>
  and \<open>lib/a_b.a\<close> have the same key. When two record invocations have the same record
  name, the second record replaces the first, and a merge that follows passes on the
  object list of the second invocation only.
\<close>

theorem sanitize_collision_overwrites:
  "sanitize ''lib/a/b.a'' = sanitize ''lib/a_b.a'' \<and> ''lib/a/b.a'' \<noteq> ''lib/a_b.a'' \<and>
   (is_record c1 \<and> is_record c2 \<and> recorded_name c1 = recorded_name c2
      \<and> storable (recorded_objects c2) \<longrightarrow>
    snd (ar_merge cfg files ''merge'' [] (build ar cfg st [(files0, ''clean'', []), c1, c2])) =
      Some (''qc'' # phase_1_output cfg # recorded_objects c2))"
proof -
  have collide: "sanitize ''lib/a/b.a'' = sanitize ''lib/a_b.a''"
    by (simp add: sanitize_def)
  have "snd (ar_merge cfg files ''merge'' [] (build ar cfg st [(files0, ''clean'', []), c1, c2])) =
      Some (''qc'' # phase_1_output cfg # recorded_objects c2)"
    if r: "is_record c1" "is_record c2" and n: "recorded_name c1 = recorded_name c2"
      and s: "storable (recorded_objects c2)"
  proof -
    let ?records = "map (\<lambda>call. (recorded_name call, recorded_objects call)) [c1, c2]"
    have "cached_objects (ensure_cache_dir (build ar cfg st ((files0, ''clean'', []) # [c1, c2]))) =
        merged_members ?records"
    proof (rule merge_after_clean_and_records)
      show "\<forall>call\<in>set [c1, c2]. is_record call" using r by simp
    next
      fix k objs assume "map_of (rev ?records) k = Some objs"
      then have "objs = recorded_objects c2"
        using n by (simp split: if_splits)
      then show "storable objs" using s by simp
    qed
    moreover have "merged_members ?records = recorded_objects c2"
      using n by (simp add: merged_members_def latest_def)
    ultimately show ?thesis
      by (simp add: ar_merge_merge)
  qed
  with collide show ?thesis by simp
qed

theorem sanitize_collision_witness:
  "is_record collide_first \<and> is_record collide_second
   \<and> recorded_name collide_first = recorded_name collide_second
   \<and> storable (recorded_objects collide_second)
   \<and> snd (ar_merge example_config no_files ''merge'' []
          (build simple_ar example_config fresh_state
             [(no_files, ''clean'', []), collide_first, collide_second])) =
      Some [''qc'', ''/build/libjank-standalone-phase-1.a'', ''y1.o'', ''y2.o'']"
proof -
  have h: "is_record collide_first \<and> is_record collide_second
      \<and> recorded_name collide_first = recorded_name collide_second
      \<and> storable (recorded_objects collide_second)"
    by (simp add: collide_first_def collide_second_def is_record_def switch_eq_def to_lower_def
        recorded_name_def recorded_objects_def ps_rest_Cons output_of_Cons list_file_def
        sanitize_def object_args_of_def rsp_match_def storable_def line_text_def)
  have o: "recorded_objects collide_second = [''y1.o'', ''y2.o'']"
    by (simp add: collide_second_def recorded_objects_def ps_rest_Cons object_args_of_def
        rsp_match_def)
  show ?thesis
    using h sanitize_collision_overwrites
      [of collide_first collide_second example_config no_files simple_ar fresh_state no_files]
    by (simp add: o phase_1_output_def example_config_def)
qed

subsection \<open>Response files\<close>

lemma add_lines_eq:
  "add_lines expanded lines = expanded @ filter (\<lambda>path. path \<noteq> []) (map Trim lines)"
  by (induction lines arbitrary: expanded) (simp_all add: Let_def)

lemma expand_args_eq:
  "expand_args files expanded object_args = expanded @ concat (map (expansion files) object_args)"
  by (induction object_args arbitrary: expanded)
     (simp_all add: expansion_def response_paths_def add_lines_eq split: option.splits)

lemma map_of_put_file_same: "map_of (put_file name content dir) name = Some content"
  by (simp add: map_of_put_file)

text \<open>
  C4, as the script has it. When the object arguments of a record invocation include a
  reference to a response file that exists at that moment, the record written for the
  target holds, in the place of the reference, the paths read from the response file:
  its lines, trimmed, without the empty ones. Every other object argument is expanded
  the same way or, when it is no reference or its file is missing, written as it is.
\<close>

theorem record_holds_paths_of_existing_response_file:
  assumes "is_record (files, command, output # before @ ref # after)"
    and "rsp_match ref = Some rspFile"
    and "files rspFile = Some content"
  shows "map_of (ensure_cache_dir
                   (fst (ar_merge cfg files command (output # before @ ref # after) st)))
           (sanitize output @ ''.list'') =
         Some (Out_File (host_os cfg)
                (join_nl (concat (map (expansion files) before)
                          @ filter (\<lambda>path. path \<noteq> []) (map Trim (Get_Content content))
                          @ concat (map (expansion files) after))))"
proof -
  have ne: "before @ ref # after \<noteq> []" by simp
  have e: "expansion files ref = filter (\<lambda>path. path \<noteq> []) (map Trim (Get_Content content))"
    using assms(2,3) by (simp add: expansion_def response_paths_def)
  show ?thesis
    using ne
    by (simp add: ar_merge_record[OF assms(1)] ensure_cache_dir_def map_of_put_file_same
        recorded_name_def record_content_def recorded_objects_def expand_args_eq
        ps_rest_Cons output_of_Cons object_args_of_def list_file_def e)
qed

lemma example_response_paths: "response_paths example_rsp_text = [''a.o'', ''b.o'']"
  by code_simp

theorem record_holds_paths_witness:
  "is_record (example_rsp, ''qc'', ''libx.a'' # [''b0.o''] @ ''@objs.rsp'' # [''c.o'']) \<and>
   rsp_match ''@objs.rsp'' = Some ''objs.rsp'' \<and>
   example_rsp ''objs.rsp'' = Some example_rsp_text \<and>
   map_of (ensure_cache_dir (fst (ar_merge example_config example_rsp ''qc''
             [''libx.a'', ''b0.o'', ''@objs.rsp'', ''c.o''] fresh_state))) ''libx.a.list'' =
     Some (''b0.o'' @ [LF] @ ''a.o'' @ [LF] @ ''b.o'' @ [LF] @ ''c.o'' @ [CR, LF])"
proof -
  have r: "is_record (example_rsp, ''qc'', ''libx.a'' # [''b0.o''] @ ''@objs.rsp'' # [''c.o''])"
    by (simp add: is_record_def switch_eq_def to_lower_def)
  have m: "rsp_match ''@objs.rsp'' = Some ''objs.rsp''"
    by (simp add: rsp_match_def)
  have f: "example_rsp ''objs.rsp'' = Some example_rsp_text"
    by (simp add: example_rsp_def)
  have t: "filter (\<lambda>path. path \<noteq> []) (map Trim (Get_Content example_rsp_text)) = [''a.o'', ''b.o'']"
    using example_response_paths by (simp add: response_paths_def)
  have e: "expansion example_rsp ''b0.o'' = [''b0.o'']" "expansion example_rsp ''c.o'' = [''c.o'']"
    by (simp_all add: expansion_def rsp_match_def)
  show ?thesis
    using r m f record_holds_paths_of_existing_response_file[OF r m f, of example_config fresh_state]
    by (simp add: t e sanitize_def Out_File_def example_config_def)
qed

text \<open>
  The claim as it was stated fails where the response file is missing: the reference
  itself is what the record holds.
\<close>

theorem missing_response_file_recorded_as_reference:
  "cache_dir (fst (ar_merge example_config no_files ''qc'' [''libx.a'', ''@objs.rsp''] fresh_state)) =
     Some [(''libx.a.list'', ''@objs.rsp'' @ [CR, LF])]"
proof -
  have r: "is_record (no_files, ''qc'', [''libx.a'', ''@objs.rsp''])"
    by (simp add: is_record_def switch_eq_def to_lower_def)
  have n: "recorded_name (no_files, ''qc'', [''libx.a'', ''@objs.rsp'']) = ''libx.a.list''"
    by (simp add: recorded_name_def ps_rest_Cons output_of_Cons list_file_def sanitize_def)
  have c: "record_content example_config (no_files, ''qc'', [''libx.a'', ''@objs.rsp'']) =
      ''@objs.rsp'' @ [CR, LF]"
    by (simp add: record_content_def recorded_objects_def ps_rest_Cons object_args_of_def
        rsp_match_def no_files_def Out_File_def example_config_def)
  show ?thesis
    by (simp add: ar_merge_record[OF r] n c put_file_def Remove_Item_def fresh_state_def
        ensure_cache_dir_def)
qed

subsection \<open>What is forwarded to the archiver\<close>

text \<open>
  With at least one object argument the default branch forwards the arguments it was
  given.
\<close>

lemma default_mode_forwards_with_objects:
  assumes "is_record (files, command, output # obj # objs)"
  shows "snd (ar_merge cfg files command (output # obj # objs) st) =
     Some (command # output # obj # objs)"
  by (simp add: ar_merge_record[OF assms] ps_rest_Cons output_of_Cons object_args_of_def)

text \<open>
  C5 at the invocation \<open>qc libx.a\<close>, which names an archive and no object: the slice
  \<open>$remaining_args[1..0]\<close> is the output path again, so the archiver is given the output
  path twice.
\<close>

theorem default_mode_repeats_output_without_objects:
  "snd (ar_merge example_config no_files ''qc'' [''libx.a''] fresh_state) =
     Some [''qc'', ''libx.a'', ''libx.a'']"
proof -
  have "is_record (no_files, ''qc'', [''libx.a''])"
    by (simp add: is_record_def switch_eq_def to_lower_def)
  then show ?thesis
    by (simp add: ar_merge_record ps_rest_Cons output_of_Cons object_args_of_def)
qed

section \<open>Properties of the toolchain resolution and of the argument lists\<close>

subsection \<open>Classification before the probe\<close>

lemma snd_check_path:
  "p \<in> set (snd (check_path fs b home path)) \<Longrightarrow> p = path \<and> is_accessible_path b home p"
  by (simp add: check_path_def split: if_splits)

lemma check_path_probed:
  "check_path fs b home path = (ok, ps) \<Longrightarrow> p \<in> set ps \<Longrightarrow> is_accessible_path b home p"
  by (auto simp: check_path_def split: if_splits)

lemma filter_flags_loop_args:
  "fst (filter_flags_loop fs b home flags (args, probed)) =
     args @ filter (\<lambda>flag. prefix ''-I'' flag \<longrightarrow> fst (check_path fs b home (drop 2 flag))) flags"
  by (induction flags arbitrary: args probed)
     (auto split: prod.splits bool.splits)

lemma filter_flags_loop_probed:
  "snd (filter_flags_loop fs b home flags (args, probed)) =
     probed @ concat (map (\<lambda>flag. if prefix ''-I'' flag
                                   then snd (check_path fs b home (drop 2 flag)) else []) flags)"
  by (induction flags arbitrary: args probed)
     (auto split: prod.splits bool.splits)

lemma fst_check_path:
  "fst (check_path fs b home path) \<longleftrightarrow> is_accessible_path b home path \<and> fs path = Found"
  by (simp add: check_path_def exists_no_error_def)

lemma find_clang_probed:
  assumes "p \<in> set (snd (find_clang fs process_path home resource_dir configured_path cxx))"
  shows "p = path_append resource_dir ''bin/clang++''
         \<or> is_accessible_path (is_app_bundle process_path) home p"
  using assms
  by (auto simp: find_clang_def Let_def dest: check_path_probed
      split: if_splits prod.splits bool.splits option.splits)

lemma filter_jit_flags_probed:
  assumes "p \<in> set (snd (filter_jit_flags fs process_path home raw args))"
  shows "is_accessible_path (is_app_bundle process_path) home p"
  using assms
  by (auto simp: filter_jit_flags_def filter_flags_loop_probed dest: snd_check_path
      split: if_splits)

lemma prefix_home_slash: "prefix (h @ ''/'') path \<Longrightarrow> prefix h path"
  by (rule append_prefixD)

lemma rejected_not_accessible:
  "rejected b home path \<Longrightarrow> \<not> is_accessible_path b home path"
  by (auto simp: rejected_def is_accessible_path_def split: option.splits)

lemma below_home_accessible:
  "\<not> b \<Longrightarrow> below_home home path \<Longrightarrow> is_accessible_path b home path"
  by (auto simp: below_home_def is_accessible_path_def split: option.splits
      dest: prefix_home_slash)

lemma find_clang_selected:
  assumes "fst (find_clang fs process_path home resource_dir configured_path cxx) = Some p"
  shows "p \<in> set (snd (find_clang fs process_path home resource_dir configured_path cxx))
         \<and> fs p = Found"
  using assms
  by (auto simp: find_clang_def Let_def check_path_def exists_no_error_def
      split: if_splits prod.splits bool.splits option.splits)

lemma find_clang_configured:
  assumes "fs (path_append resource_dir ''bin/clang++'') \<noteq> Found"
    and "is_accessible_path (is_app_bundle process_path) home configured_path"
  shows "configured_path \<in> set (snd (find_clang fs process_path home resource_dir configured_path cxx))
     \<and> (fst (find_clang fs process_path home resource_dir configured_path cxx) = Some configured_path
          \<longleftrightarrow> fs configured_path = Found)"
  using assms
  by (auto simp: find_clang_def Let_def check_path_def exists_no_error_def
      split: if_splits prod.splits bool.splits option.splits)

lemma find_clang_cxx:
  assumes "fs (path_append resource_dir ''bin/clang++'') \<noteq> Found"
    and "fst (find_clang fs process_path home resource_dir configured_path (Some cxx_path))
           \<noteq> Some configured_path"
    and "is_accessible_path (is_app_bundle process_path) home cxx_path"
  shows "cxx_path \<in> set (snd (find_clang fs process_path home resource_dir configured_path (Some cxx_path)))
     \<and> (fst (find_clang fs process_path home resource_dir configured_path (Some cxx_path)) = Some cxx_path
          \<longleftrightarrow> fs cxx_path = Found)"
  using assms
  by (auto simp: find_clang_def Let_def check_path_def exists_no_error_def
      split: if_splits prod.splits bool.splits option.splits)

lemma include_flag_kept:
  "''-I'' @ path \<in> set (drop (length args) (fst (filter_jit_flags fs process_path home raw args)))
     \<longleftrightarrow> ''-I'' @ path \<in> set (getline_all [] raw)
          \<and> is_accessible_path (is_app_bundle process_path) home path \<and> fs path = Found"
  by (auto simp: filter_jit_flags_def filter_flags_loop_args fst_check_path)

lemma include_flag_probed:
  assumes "''-I'' @ path \<in> set (getline_all [] raw)"
    and "is_accessible_path (is_app_bundle process_path) home path"
  shows "path \<in> set (snd (filter_jit_flags fs process_path home raw args))"
proof -
  have "path \<in> set (if prefix ''-I'' (''-I'' @ path)
                     then snd (check_path fs (is_app_bundle process_path) home (drop 2 (''-I'' @ path)))
                     else [])"
    using assms(2) by (simp add: check_path_def)
  with assms(1) show ?thesis
    unfolding filter_jit_flags_def filter_flags_loop_probed
    by (auto intro!: bexI[of _ "''-I'' @ path"])
qed

text \<open>
  C6, as the code has it. For the configured compiler path and the \<open>CXX\<close> path of
  \<open>find_clang\<close> and for the include paths of the flag filter, but not for the bundled
  compiler: a path that starts with \<open>/Users/\<close> is neither probed nor selected (its flag is
  not kept) when the process runs from an application bundle, or \<open>HOME\<close> is unset, or the
  path does not start with the value of \<open>HOME\<close>. Outside a bundle a path that is \<open>HOME\<close>
  or lies below it is probed when its turn comes, and it is selected (its flag is kept)
  exactly when the probe finds it without error.
\<close>

theorem home_paths_classified_before_probe:
  "(rejected (is_app_bundle process_path) home p
      \<and> p \<noteq> path_append resource_dir ''bin/clang++'' \<longrightarrow>
      p \<notin> set (snd (find_clang fs process_path home resource_dir configured_path cxx))
      \<and> fst (find_clang fs process_path home resource_dir configured_path cxx) \<noteq> Some p) \<and>
   (\<not> is_app_bundle process_path \<and> below_home home configured_path
      \<and> fs (path_append resource_dir ''bin/clang++'') \<noteq> Found \<longrightarrow>
      configured_path \<in> set (snd (find_clang fs process_path home resource_dir configured_path cxx))
      \<and> (fst (find_clang fs process_path home resource_dir configured_path cxx) = Some configured_path
           \<longleftrightarrow> fs configured_path = Found)) \<and>
   (\<not> is_app_bundle process_path \<and> below_home home cxx_path
      \<and> fs (path_append resource_dir ''bin/clang++'') \<noteq> Found
      \<and> fst (find_clang fs process_path home resource_dir configured_path (Some cxx_path))
            \<noteq> Some configured_path \<longrightarrow>
      cxx_path \<in> set (snd (find_clang fs process_path home resource_dir configured_path (Some cxx_path)))
      \<and> (fst (find_clang fs process_path home resource_dir configured_path (Some cxx_path)) = Some cxx_path
           \<longleftrightarrow> fs cxx_path = Found)) \<and>
   (rejected (is_app_bundle process_path) home p \<longrightarrow>
      p \<notin> set (snd (filter_jit_flags fs process_path home raw args))
      \<and> ''-I'' @ p \<notin> set (drop (length args) (fst (filter_jit_flags fs process_path home raw args)))) \<and>
   (\<not> is_app_bundle process_path \<and> below_home home p
      \<and> ''-I'' @ p \<in> set (getline_all [] raw) \<longrightarrow>
      p \<in> set (snd (filter_jit_flags fs process_path home raw args))
      \<and> (''-I'' @ p \<in> set (drop (length args) (fst (filter_jit_flags fs process_path home raw args)))
           \<longleftrightarrow> fs p = Found))"
proof (intro conjI impI)
  assume a: "rejected (is_app_bundle process_path) home p
      \<and> p \<noteq> path_append resource_dir ''bin/clang++''"
  then have n: "\<not> is_accessible_path (is_app_bundle process_path) home p"
    by (simp add: rejected_not_accessible)
  with a show np: "p \<notin> set (snd (find_clang fs process_path home resource_dir configured_path cxx))"
    using find_clang_probed by blast
  then show "fst (find_clang fs process_path home resource_dir configured_path cxx) \<noteq> Some p"
    using find_clang_selected by blast
next
  assume a: "\<not> is_app_bundle process_path \<and> below_home home configured_path
      \<and> fs (path_append resource_dir ''bin/clang++'') \<noteq> Found"
  then have acc: "is_accessible_path (is_app_bundle process_path) home configured_path"
    by (simp add: below_home_accessible)
  from a acc show "configured_path \<in> set (snd (find_clang fs process_path home resource_dir configured_path cxx))"
    using find_clang_configured by blast
  from a acc show "fst (find_clang fs process_path home resource_dir configured_path cxx) = Some configured_path
           \<longleftrightarrow> fs configured_path = Found"
    using find_clang_configured by blast
next
  assume a: "\<not> is_app_bundle process_path \<and> below_home home cxx_path
      \<and> fs (path_append resource_dir ''bin/clang++'') \<noteq> Found
      \<and> fst (find_clang fs process_path home resource_dir configured_path (Some cxx_path))
            \<noteq> Some configured_path"
  then have acc: "is_accessible_path (is_app_bundle process_path) home cxx_path"
    by (simp add: below_home_accessible)
  from a acc show "cxx_path \<in> set (snd (find_clang fs process_path home resource_dir configured_path (Some cxx_path)))"
    using find_clang_cxx by blast
  from a acc show "fst (find_clang fs process_path home resource_dir configured_path (Some cxx_path)) = Some cxx_path
           \<longleftrightarrow> fs cxx_path = Found"
    using find_clang_cxx by blast
next
  assume "rejected (is_app_bundle process_path) home p"
  then have n: "\<not> is_accessible_path (is_app_bundle process_path) home p"
    by (rule rejected_not_accessible)
  then show "p \<notin> set (snd (filter_jit_flags fs process_path home raw args))"
    using filter_jit_flags_probed by blast
  from n show "''-I'' @ p \<notin> set (drop (length args) (fst (filter_jit_flags fs process_path home raw args)))"
    using include_flag_kept[of p args fs process_path home raw] by blast
next
  assume a: "\<not> is_app_bundle process_path \<and> below_home home p
      \<and> ''-I'' @ p \<in> set (getline_all [] raw)"
  then have acc: "is_accessible_path (is_app_bundle process_path) home p"
    by (simp add: below_home_accessible)
  with a show "p \<in> set (snd (filter_jit_flags fs process_path home raw args))"
    using include_flag_probed[of p raw process_path home fs args] by blast
  from a acc show "''-I'' @ p \<in> set (drop (length args) (fst (filter_jit_flags fs process_path home raw args)))
           \<longleftrightarrow> fs p = Found"
    using include_flag_kept[of p args fs process_path home raw] by blast
qed

lemma example_not_bundle: "\<not> is_app_bundle ''/usr/local/bin/jank''"
  unfolding is_app_bundle_def by code_simp

lemma example_flags_split:
  "getline_all [] ''-I/Users/bob/inc -I/Users/alice/inc'' = [''-I/Users/bob/inc'', ''-I/Users/alice/inc'']"
  by simp

theorem home_paths_classified_witness:
  "rejected (is_app_bundle ''/usr/local/bin/jank'') (Some ''/Users/alice'') ''/Users/bob/llvm/bin/clang++'' \<and>
   below_home (Some ''/Users/alice'') ''/Users/alice/llvm/bin/clang++'' \<and>
   find_clang no_bundled ''/usr/local/bin/jank'' (Some ''/Users/alice'') ''/opt/jank''
       ''/Users/bob/llvm/bin/clang++'' (Some ''/Users/alice/llvm/bin/clang++'') =
     (Some ''/Users/alice/llvm/bin/clang++'',
      [''/opt/jank/bin/clang++'', ''/Users/alice/llvm/bin/clang++'']) \<and>
   filter_jit_flags all_found ''/usr/local/bin/jank'' (Some ''/Users/alice'')
       ''-I/Users/bob/inc -I/Users/alice/inc'' [] =
     ([''-I/Users/alice/inc''], [''/Users/alice/inc''])"
  using home_paths_classified_before_probe
      [of "''/usr/local/bin/jank''" "Some ''/Users/alice''" "''/Users/bob/llvm/bin/clang++''"
          "''/opt/jank''" no_bundled "''/Users/bob/llvm/bin/clang++''"
          "Some ''/Users/alice/llvm/bin/clang++''" "''/Users/alice/llvm/bin/clang++''"
          "''-I/Users/bob/inc -I/Users/alice/inc''" "[]"]
  by (simp add: example_not_bundle rejected_def below_home_def find_clang_def Let_def
      path_append_def exists_no_error_def check_path_def is_accessible_path_def no_bundled_def
      all_found_def filter_jit_flags_def example_flags_split)

text \<open>
  The claim as it was stated fails for the bundled compiler: inside a bundle installed
  below \<open>/Users/\<close> its path is probed, and accepted.
\<close>

lemma example_bundle: "is_app_bundle ''/Users/alice/Apps/Game.app/Contents/MacOS/game''"
  unfolding is_app_bundle_def by code_simp

theorem find_clang_probes_bundled_compiler_in_bundle:
  "is_app_bundle ''/Users/alice/Apps/Game.app/Contents/MacOS/game'' \<and>
   prefix ''/Users/'' ''/Users/alice/Apps/Game.app/Contents/Resources/bin/clang++'' \<and>
   find_clang all_found ''/Users/alice/Apps/Game.app/Contents/MacOS/game'' (Some ''/Users/alice'')
       ''/Users/alice/Apps/Game.app/Contents/Resources'' ''/Users/cam/llvm/bin/clang++'' None =
     (Some ''/Users/alice/Apps/Game.app/Contents/Resources/bin/clang++'',
      [''/Users/alice/Apps/Game.app/Contents/Resources/bin/clang++''])"
  by (simp add: example_bundle find_clang_def Let_def path_append_def exists_no_error_def
      all_found_def)

text \<open>
  The test against \<open>HOME\<close> compares strings: with \<open>HOME\<close> at \<open>/Users/cam\<close>, a path in the
  home of the user \<open>cameron\<close> passes the classification.
\<close>

lemma home_test_is_a_string_prefix:
  "is_accessible_path False (Some ''/Users/cam'') ''/Users/cameron/include'' = True"
  by (simp add: is_accessible_path_def)

subsection \<open>The filtered flags\<close>

text \<open>
  C7, as the code has it. The flags are the pieces of the raw string between its
  single spaces: two spaces in a row give an empty flag, and no other white space
  separates flags. The flags appended
  to \<open>args\<close> are those pieces in their order, without the \<open>-I\<close> flags whose path (the
  flag without its first two characters) fails the classification or is not found by
  the probe; every other flag is kept as it is. The kept flags are a subsequence of
  the pieces.
\<close>

theorem filter_jit_flags_subsequence:
  "fst (filter_jit_flags fs process_path home raw args) =
     args @ filter (\<lambda>flag. prefix ''-I'' flag \<longrightarrow>
                      is_accessible_path (is_app_bundle process_path) home (drop 2 flag)
                      \<and> fs (drop 2 flag) = Found)
              (getline_all [] raw) \<and>
   subseq (drop (length args) (fst (filter_jit_flags fs process_path home raw args)))
     (getline_all [] raw)"
proof -
  have eq: "fst (filter_jit_flags fs process_path home raw args) =
     args @ filter (\<lambda>flag. prefix ''-I'' flag \<longrightarrow>
                      is_accessible_path (is_app_bundle process_path) home (drop 2 flag)
                      \<and> fs (drop 2 flag) = Found)
              (getline_all [] raw)"
    by (simp add: filter_jit_flags_def filter_flags_loop_args fst_check_path)
  show ?thesis
    unfolding eq by simp
qed

lemma example_split:
  "getline_all [] ''-I/Users/bob/inc -DX -I/opt/inc -I/nowhere -O2'' =
     [''-I/Users/bob/inc'', ''-DX'', ''-I/opt/inc'', ''-I/nowhere'', ''-O2'']"
  by simp

theorem filter_jit_flags_witness:
  "fst (filter_jit_flags only_opt ''/usr/local/bin/jank'' (Some ''/Users/alice'')
          ''-I/Users/bob/inc -DX -I/opt/inc -I/nowhere -O2'' [''clang++'']) =
     [''clang++'', ''-DX'', ''-I/opt/inc'', ''-O2'']"
  using filter_jit_flags_subsequence
    [of only_opt "''/usr/local/bin/jank''" "Some ''/Users/alice''"
        "''-I/Users/bob/inc -DX -I/opt/inc -I/nowhere -O2''" "[''clang++'']"]
  by (simp add: example_split is_accessible_path_def only_opt_def)

text \<open>
  The claim as it was stated fails where the flags are separated by other white space:
  an include flag that follows a tabulator stays part of the flag in front of it and is
  kept, although its path is missing.
\<close>

lemma tab_joined_pieces: "getline_all [] tab_joined = [tab_joined]"
  unfolding tab_joined_def by code_simp

lemma tab_joined_words: "split_whitespace [] tab_joined = [''-DX'', ''-I/nowhere'']"
  unfolding tab_joined_def by code_simp

lemma tab_joined_no_include: "\<not> prefix ''-I'' tab_joined"
  by (simp add: tab_joined_def)

lemma tab_joined_differs: "tab_joined \<noteq> ''-DX''" "tab_joined \<noteq> ''-I/nowhere''"
  by (simp_all add: tab_joined_def)

theorem tab_is_not_a_separator:
  "split_whitespace [] tab_joined = [''-DX'', ''-I/nowhere''] \<and>
   only_opt ''/nowhere'' = Missing \<and>
   fst (filter_jit_flags only_opt ''/usr/local/bin/jank'' (Some ''/Users/alice'') tab_joined []) =
     [tab_joined] \<and>
   \<not> subseq (fst (filter_jit_flags only_opt ''/usr/local/bin/jank'' (Some ''/Users/alice'')
                    tab_joined []))
        (split_whitespace [] tab_joined)"
  by (simp add: tab_joined_words only_opt_def filter_jit_flags_def tab_joined_pieces
      tab_joined_no_include tab_joined_differs)

subsection \<open>The flags that load the precompiled header\<close>

text \<open>
  C8. For every path of the precompiled header, the flags appended to load it are
  \<open>-include-pch\<close> with the path, followed by \<open>-Xclang -fno-validate-pch\<close>, which turns
  the validation of the header off; the last flag is never missing.
\<close>

theorem load_pch_flags_no_validate:
  "load_pch_flags args pch_path =
     args @ [''-include-pch'', pch_path, ''-Xclang'', ''-fno-validate-pch''] \<and>
   ''-fno-validate-pch'' \<in> set (load_pch_flags args pch_path) \<and>
   sublist [''-include-pch'', pch_path] (load_pch_flags args pch_path)"
proof -
  have eq: "load_pch_flags args pch_path =
      args @ [''-include-pch'', pch_path, ''-Xclang'', ''-fno-validate-pch'']"
    by (simp add: load_pch_flags_def)
  have "sublist [''-include-pch'', pch_path]
          (args @ [''-include-pch'', pch_path] @ [''-Xclang'', ''-fno-validate-pch''])"
    by (rule sublist_appendI)
  then show ?thesis using eq by simp
qed

theorem load_pch_flags_witness:
  "load_pch_flags [''-std=gnu++20''] ''/cache/incremental.pch'' =
     [''-std=gnu++20'', ''-include-pch'', ''/cache/incremental.pch'', ''-Xclang'',
      ''-fno-validate-pch'']"
  using load_pch_flags_no_validate[of "[''-std=gnu++20'']" "''/cache/incremental.pch''"]
  by simp

subsection \<open>The link arguments\<close>

lemma push_user_libs_eq:
  "push_user_libs compiler_args libs = compiler_args @ map (\<lambda>lib. ''-l'' @ lib) libs"
  by (induction libs arbitrary: compiler_args) simp_all

lemma push_frameworks_eq:
  "push_frameworks compiler_args fws =
     compiler_args @ concat (map (\<lambda>framework. [''-framework'', framework]) fws)"
  by (induction fws arbitrary: compiler_args) simp_all

text \<open>
  C9. The link arguments are those pushed before, then one \<open>-l\<close> flag for every entry
  of the list of libraries, in its order, then, on a platform that is \<open>macos_like\<close>, the
  \<open>-framework\<close> flags of OpenGL, Cocoa, IOKit and CoreFoundation.
\<close>

theorem compose_link_args_libs_then_frameworks:
  "compose_link_args macos_like libs compiler_args =
     compiler_args @ map (\<lambda>lib. ''-l'' @ lib) libs @
       (if macos_like
        then [''-framework'', ''OpenGL'', ''-framework'', ''Cocoa'',
              ''-framework'', ''IOKit'', ''-framework'', ''CoreFoundation'']
        else [])"
  by (simp add: compose_link_args_def push_user_libs_eq push_frameworks_eq)

theorem compose_link_args_witness:
  "compose_link_args True [''glfw.3'', ''ozz''] [''-L/opt/lib''] =
     [''-L/opt/lib'', ''-lglfw.3'', ''-lozz'',
      ''-framework'', ''OpenGL'', ''-framework'', ''Cocoa'',
      ''-framework'', ''IOKit'', ''-framework'', ''CoreFoundation''] \<and>
   compose_link_args False [''glfw.3'', ''ozz''] [''-L/opt/lib''] =
     [''-L/opt/lib'', ''-lglfw.3'', ''-lozz'']"
  using compose_link_args_libs_then_frameworks[of True "[''glfw.3'', ''ozz'']" "[''-L/opt/lib'']"]
    compose_link_args_libs_then_frameworks[of False "[''glfw.3'', ''ozz'']" "[''-L/opt/lib'']"]
  by simp

end
